theory Spec2Isabelle
  imports Main "HOL-Library.Multiset"
begin

section \<open>Strings as Python sees them\<close>

text \<open>
  Strings are lists of characters. The model covers ASCII text: \<open>str.lower\<close> maps
  \<open>A..Z\<close> to \<open>a..z\<close>, whitespace is the ASCII whitespace of \<open>str.split()\<close> and
  \<open>str.strip()\<close>, and decimal digits are \<open>0..9\<close>.
\<close>

definition lower_char :: "char \<Rightarrow> char" where
  "lower_char c =
     (let n = (of_char c :: nat) in if 65 \<le> n \<and> n \<le> 90 then char_of (n + 32) else c)"

definition lower :: "string \<Rightarrow> string" where
  "lower s = map lower_char s"

definition is_space :: "char \<Rightarrow> bool" where
  "is_space c =
     (let n = (of_char c :: nat) in n = 32 \<or> (9 \<le> n \<and> n \<le> 13) \<or> (28 \<le> n \<and> n \<le> 31))"

definition is_digit :: "char \<Rightarrow> bool" where
  "is_digit c = (let n = (of_char c :: nat) in 48 \<le> n \<and> n \<le> 57)"

definition digit_val :: "char \<Rightarrow> int" where
  "digit_val c = int (of_char c) - 48"

text \<open>\<open>s.replace(old, new)\<close> for single characters.\<close>

definition replace_char :: "char \<Rightarrow> char \<Rightarrow> string \<Rightarrow> string" where
  "replace_char old new s = map (\<lambda>c. if c = old then new else c) s"

text \<open>
  \<open>s.split()\<close> without a separator: runs of whitespace separate the words and no empty
  word is produced. The first argument holds the characters of the current word, last
  character first.
\<close>

fun split_ws :: "string \<Rightarrow> string \<Rightarrow> string list" where
  "split_ws cur [] = (if cur = [] then [] else [rev cur])"
| "split_ws cur (c # cs) =
     (if is_space c then (if cur = [] then split_ws [] cs else rev cur # split_ws [] cs)
      else split_ws (c # cur) cs)"

definition py_split :: "string \<Rightarrow> string list" where
  "py_split s = split_ws [] s"

text \<open>\<open>s.split(sep)\<close> with a one-character separator: empty pieces are kept.\<close>

fun split_sep :: "char \<Rightarrow> string \<Rightarrow> string \<Rightarrow> string list" where
  "split_sep sep cur [] = [rev cur]"
| "split_sep sep cur (c # cs) =
     (if c = sep then rev cur # split_sep sep [] cs else split_sep sep (c # cur) cs)"

definition split_on :: "char \<Rightarrow> string \<Rightarrow> string list" where
  "split_on sep s = split_sep sep [] s"

text \<open>\<open>sep.join(parts)\<close> with a one-character separator.\<close>

fun join :: "char \<Rightarrow> string list \<Rightarrow> string" where
  "join sep [] = []"
| "join sep [p] = p"
| "join sep (p # q # ps) = p @ sep # join sep (q # ps)"

text \<open>\<open>s.strip()\<close>.\<close>

definition strip :: "string \<Rightarrow> string" where
  "strip s = rev (dropWhile is_space (rev (dropWhile is_space s)))"

text \<open>
  \<open>int(s)\<close> in base ten: surrounding whitespace is dropped, one sign is allowed, and the
  digits may be grouped by single underscores. \<open>None\<close> stands for \<open>ValueError\<close>.
\<close>

fun int_digits :: "int \<Rightarrow> string \<Rightarrow> int option" where
  "int_digits acc [] = Some acc"
| "int_digits acc (c # cs) =
     (if is_digit c then int_digits (10 * acc + digit_val c) cs
      else if c = CHR ''_'' then
        (case cs of
           [] \<Rightarrow> None
         | d # ds \<Rightarrow> if is_digit d then int_digits (10 * acc + digit_val d) ds else None)
      else None)"

definition int_unsigned :: "string \<Rightarrow> int option" where
  "int_unsigned s =
     (case s of [] \<Rightarrow> None | c # cs \<Rightarrow> if is_digit c then int_digits (digit_val c) cs else None)"

definition py_int :: "string \<Rightarrow> int option" where
  "py_int s =
     (case strip s of
        [] \<Rightarrow> None
      | c # cs \<Rightarrow>
          if c = CHR ''+'' then int_unsigned cs
          else if c = CHR ''-'' then map_option uminus (int_unsigned cs)
          else int_unsigned (c # cs))"

section \<open>Selection parser (\<open>parse_selection\<close> in diskface.py)\<close>

text \<open>
  The two ways the loop of \<open>parse_selection\<close> gives up: a \<open>ValueError\<close> from \<open>int\<close>,
  caught by the handler, and the explicit \<open>return []\<close> of a failed bounds check.
\<close>

datatype reject = ValueError | OutOfBounds

text \<open>
  The body of the loop for one part. With a \<open>-\<close> in the part, \<open>part.split('-', 1)\<close>
  gives the text before the first \<open>-\<close> and the text after it.
\<close>

definition parse_part :: "int \<Rightarrow> string \<Rightarrow> reject + int list" where
  "parse_part max_items part =
     (if CHR ''-'' \<in> set part then
        (case py_int (takeWhile (\<lambda>c. c \<noteq> CHR ''-'') part) of
           None \<Rightarrow> Inl ValueError
         | Some start \<Rightarrow>
             (case py_int (tl (dropWhile (\<lambda>c. c \<noteq> CHR ''-'') part)) of
                None \<Rightarrow> Inl ValueError
              | Some end \<Rightarrow>
                  if 1 \<le> start \<and> start \<le> max_items \<and> 1 \<le> end \<and> end \<le> max_items
                     \<and> start \<le> end
                  then Inr [start..end] else Inl OutOfBounds))
      else
        (case py_int part of
           None \<Rightarrow> Inl ValueError
         | Some num \<Rightarrow> if 1 \<le> num \<and> num \<le> max_items then Inr [num] else Inl OutOfBounds))"

fun parse_loop :: "int \<Rightarrow> string list \<Rightarrow> int list \<Rightarrow> reject + int list" where
  "parse_loop max_items [] indices = Inr indices"
| "parse_loop max_items (part # parts) indices =
     (case parse_part max_items part of
        Inl e \<Rightarrow> Inl e
      | Inr xs \<Rightarrow> parse_loop max_items parts (indices @ xs))"

definition selection_parts :: "string \<Rightarrow> string list" where
  "selection_parts selection = py_split (replace_char CHR '','' CHR '' '' selection)"

definition parse_selection :: "string \<Rightarrow> int \<Rightarrow> int list" where
  "parse_selection selection max_items =
     (if lower selection = ''all'' then [1..max_items]
      else
        (case parse_loop max_items (selection_parts selection) [] of
           Inl e \<Rightarrow> []
         | Inr indices \<Rightarrow> sort (remdups indices)))"

text \<open>
  The callers (\<open>interactive_selection\<close>, \<open>cmd_exclude_remove\<close>) read the empty list as
  "invalid selection": that is the \<open>ok\<close> flag of the specification.
\<close>

definition selection_ok :: "int list \<Rightarrow> bool" where
  "selection_ok indices = (indices \<noteq> [])"

text \<open>
  The token grammar of the specification, used to state what invalidates an input: a
  token is the literal \<open>all\<close> in any letter case, a bare index, a range \<open>A-B\<close> cut at
  its first \<open>-\<close>, or malformed.
\<close>

datatype token_kind = AllLiteral | Index int | Range int int | Malformed

definition classify :: "string \<Rightarrow> token_kind" where
  "classify t =
     (if lower t = ''all'' then AllLiteral
      else if CHR ''-'' \<in> set t then
        (case (py_int (takeWhile (\<lambda>c. c \<noteq> CHR ''-'') t),
               py_int (tl (dropWhile (\<lambda>c. c \<noteq> CHR ''-'') t))) of
           (Some a, Some b) \<Rightarrow> Range a b
         | _ \<Rightarrow> Malformed)
      else (case py_int t of Some n \<Rightarrow> Index n | None \<Rightarrow> Malformed))"

definition invalidating :: "int \<Rightarrow> string \<Rightarrow> bool" where
  "invalidating max_index t =
     (case classify t of
        AllLiteral \<Rightarrow> False
      | Index n \<Rightarrow> n < 1 \<or> max_index < n
      | Range a b \<Rightarrow> a < 1 \<or> max_index < a \<or> b < 1 \<or> max_index < b \<or> b < a
      | Malformed \<Rightarrow> True)"

section \<open>Pattern matcher (\<open>path_matches_pattern\<close> in diskface.py)\<close>

subsection \<open>\<open>PurePath\<close> on a POSIX system\<close>

text \<open>
  \<open>PurePath(s)\<close> keeps a root (\<open>//\<close> for exactly two leading slashes, \<open>/\<close> for one or for
  three and more) and the components of \<open>s\<close> that are neither empty nor \<open>.\<close>; \<open>str\<close> of it
  is the root followed by the components joined with \<open>/\<close>, or \<open>.\<close> when both are empty.
\<close>

definition path_root :: "string \<Rightarrow> string" where
  "path_root s =
     (if take 1 s \<noteq> ''/'' then []
      else if length (takeWhile (\<lambda>c. c = CHR ''/'') s) = 2 then ''//'' else ''/'')"

definition path_comps :: "string \<Rightarrow> string list" where
  "path_comps s = filter (\<lambda>x. x \<noteq> [] \<and> x \<noteq> ''.'') (split_on CHR ''/'' s)"

definition purepath_str :: "string \<Rightarrow> string" where
  "purepath_str s =
     (let r = path_root s; b = join CHR ''/'' (path_comps s)
      in if r = [] \<and> b = [] then ''.'' else r @ b)"

definition is_absolute :: "string \<Rightarrow> bool" where
  "is_absolute s = (path_root s \<noteq> [])"

subsection \<open>\<open>fnmatch.fnmatch\<close> on a POSIX system\<close>

text \<open>
  \<open>fnmatch\<close> compiles the pattern (\<open>fnmatch.translate\<close>) and matches the whole name
  against it: \<open>*\<close> stands for any text, \<open>/\<close> included, \<open>?\<close> for one character,
  \<open>[seq]\<close> and \<open>[!seq]\<close> for one character in or not in \<open>seq\<close>, where \<open>a-z\<close> is a range;
  a \<open>[\<close> with no closing \<open>]\<close> is an ordinary character. \<open>os.path.normcase\<close> is the
  identity on POSIX.
\<close>

datatype glob_item = Star | AnyOne | CharSet bool string | Lit char

text \<open>
  The index of the \<open>]\<close> that closes a set, in the text after its \<open>[\<close>: a leading \<open>!\<close>
  and a \<open>]\<close> right after it belong to the set.
\<close>

definition class_close :: "string \<Rightarrow> nat option" where
  "class_close cs =
     (let j0 = (if take 1 cs = ''!'' then 1 else 0);
          j1 = (if take 1 (drop j0 cs) = '']'' then j0 + 1 else j0);
          j = j1 + length (takeWhile (\<lambda>c. c \<noteq> CHR '']'') (drop j1 cs))
      in if j < length cs then Some j else None)"

definition class_item :: "string \<Rightarrow> glob_item" where
  "class_item stuff =
     (if take 1 stuff = ''!'' then CharSet True (drop 1 stuff) else CharSet False stuff)"

fun translate :: "string \<Rightarrow> glob_item list" where
  "translate [] = []"
| "translate (c # cs) =
     (if c = CHR ''*'' then Star # translate cs
      else if c = CHR ''?'' then AnyOne # translate cs
      else if c = CHR ''['' then
        (case class_close cs of
           None \<Rightarrow> Lit c # translate cs
         | Some j \<Rightarrow> class_item (take j cs) # translate (drop (Suc j) cs))
      else Lit c # translate cs)"

fun in_set :: "char \<Rightarrow> string \<Rightarrow> bool" where
  "in_set c (a # b # d # rest) =
     (if b = CHR ''-'' then ((of_char a :: nat) \<le> of_char c \<and> (of_char c :: nat) \<le> of_char d)
                            \<or> in_set c rest
      else c = a \<or> in_set c (b # d # rest))"
| "in_set c (a # rest) = (c = a \<or> in_set c rest)"
| "in_set c [] = False"

fun gmatch :: "glob_item list \<Rightarrow> string \<Rightarrow> bool" where
  "gmatch [] s = (s = [])"
| "gmatch (Star # items) [] = gmatch items []"
| "gmatch (Star # items) (c # s) = (gmatch items (c # s) \<or> gmatch (Star # items) s)"
| "gmatch (AnyOne # items) [] = False"
| "gmatch (AnyOne # items) (c # s) = gmatch items s"
| "gmatch (CharSet neg body # items) [] = False"
| "gmatch (CharSet neg body # items) (c # s) = ((in_set c body \<noteq> neg) \<and> gmatch items s)"
| "gmatch (Lit a # items) [] = False"
| "gmatch (Lit a # items) (c # s) = (c = a \<and> gmatch items s)"

definition fnmatch :: "string \<Rightarrow> string \<Rightarrow> bool" where
  "fnmatch name pat = gmatch (translate pat) name"

subsection \<open>The matcher\<close>

text \<open>\<open>range(n)\<close> for an integer \<open>n\<close>, and the slice \<open>xs[i:j]\<close> for \<open>0 \<le> i \<le> j\<close>.\<close>

definition py_range :: "int \<Rightarrow> nat list" where
  "py_range n = [0..<nat n]"

definition py_slice :: "'a list \<Rightarrow> nat \<Rightarrow> nat \<Rightarrow> 'a list" where
  "py_slice xs i j = take (j - i) (drop i xs)"

definition path_matches_pattern :: "string \<Rightarrow> string \<Rightarrow> bool" where
  "path_matches_pattern path pattern =
     (if is_absolute pattern then
        fnmatch (lower (purepath_str path)) (lower (purepath_str pattern))
      else
        (let parts = split_on CHR ''/'' pattern in
         if ''**'' \<in> set parts then
           fnmatch (lower (purepath_str path)) (lower (''*'' @ last parts))
         else
           (let path_parts = split_on CHR ''/'' (purepath_str path);
                plen = length parts
            in list_ex
                 (\<lambda>i. fnmatch (lower (join CHR ''/'' (py_slice path_parts i (i + plen))))
                         (lower pattern))
                 (py_range (int (length path_parts) - int plen + 1)))))"

text \<open>\<open>should_exclude\<close>: \<open>any\<close> over the exclusion set, given here as a list.\<close>

definition should_exclude :: "string \<Rightarrow> string list \<Rightarrow> bool" where
  "should_exclude path exclusions = list_ex (\<lambda>excl. path_matches_pattern path excl) exclusions"

text \<open>
  The matching rule of the specification for a relative pattern without \<open>**\<close>: some
  contiguous window of the segments, as long as the pattern has segments, joined with
  \<open>/\<close>, matches the pattern as a case-insensitive glob.
\<close>

definition window_match :: "string list \<Rightarrow> string \<Rightarrow> bool" where
  "window_match segs pattern =
     (\<exists>before w after.
        segs = before @ w @ after \<and> length w = length (split_on CHR ''/'' pattern)
        \<and> fnmatch (lower (join CHR ''/'' w)) (lower pattern))"

text \<open>The same rule as a scan over the window positions, which can be evaluated.\<close>

definition window_scan :: "string list \<Rightarrow> string \<Rightarrow> bool" where
  "window_scan segs pattern =
     (let plen = length (split_on CHR ''/'' pattern)
      in list_ex (\<lambda>i. fnmatch (lower (join CHR ''/'' (py_slice segs i (i + plen)))) (lower pattern))
           (py_range (int (length segs) - int plen + 1)))"

section \<open>Scan engine (\<open>analyze_disk_usage\<close> in diskface.py)\<close>

subsection \<open>The file system the walk sees\<close>

text \<open>
  What \<open>os.walk\<close>, \<open>os.path.islink\<close> and \<open>os.path.getsize\<close> tell the scan about an
  entry of a directory: a file with its size, a file whose size cannot be read
  (\<open>getsize\<close> raises), a symbolic link that is not a directory, a directory with its
  entries in listing order, a symbolic link to a directory (listed among the
  directories, never walked into), and a directory that cannot be listed (the walk
  yields nothing for it).
\<close>

datatype node =
    File int
  | NoStat
  | Symlink
  | Dir "(string \<times> node) list"
  | SymlinkDir
  | NoAccessDir

fun is_dir :: "node \<Rightarrow> bool" where
  "is_dir (Dir children) = True"
| "is_dir SymlinkDir = True"
| "is_dir NoAccessDir = True"
| "is_dir n = False"

fun islink :: "node \<Rightarrow> bool" where
  "islink Symlink = True"
| "islink SymlinkDir = True"
| "islink n = False"

text \<open>\<open>os.path.getsize\<close> on an entry of \<open>filenames\<close>; \<open>None\<close> when it raises.\<close>

fun getsize :: "node \<Rightarrow> int option" where
  "getsize (File size_bytes) = Some size_bytes"
| "getsize n = None"

text \<open>\<open>os.path.join(a, b)\<close> on a POSIX system.\<close>

definition path_join :: "string \<Rightarrow> string \<Rightarrow> string" where
  "path_join a b =
     (if take 1 b = ''/'' then b
      else if a = [] \<or> last a = CHR ''/'' then a @ b
      else a @ ''/'' @ b)"

definition starts_dot :: "string \<Rightarrow> bool" where
  "starts_dot name = (take 1 name = ''.'')"

text \<open>
  \<open>any(part.startswith('.') for part in Path(dirpath).parts)\<close>: the root part is \<open>/\<close>
  or \<open>//\<close>, so only the components count.
\<close>

definition in_dot_directory :: "string \<Rightarrow> bool" where
  "in_dot_directory dirpath = list_ex starts_dot (path_comps dirpath)"

subsection \<open>The scan\<close>

text \<open>
  The settings the scan reads: the exclusion patterns, the threshold \<open>min_bytes\<close>
  (the source computes it as \<open>min_size_mb * 1024 * 1024\<close>) and the three flags of the
  configuration.
\<close>

record scan_config =
  exclusions :: "string list"
  min_bytes :: int
  scan_files :: bool
  scan_dirs :: bool
  ignore_dot :: bool

type_synonym scan_entry = "string \<times> int"

text \<open>\<open>filenames\<close> of a directory: its entries that are not directories.\<close>

definition filenames :: "(string \<times> node) list \<Rightarrow> (string \<times> node) list" where
  "filenames children = filter (\<lambda>(name, n). \<not> is_dir n) children"

text \<open>
  The test both file loops make before they read a size: the name is not skipped as a
  dot file, the file is not a symbolic link and its path is not excluded.
\<close>

definition counted :: "scan_config \<Rightarrow> string \<Rightarrow> string \<times> node \<Rightarrow> bool" where
  "counted cfg dirpath entry =
     (case entry of (name, n) \<Rightarrow>
        \<not> (ignore_dot cfg \<and> starts_dot name) \<and> \<not> islink n
        \<and> \<not> should_exclude (path_join dirpath name) (exclusions cfg))"

text \<open>
  The loop that adds up \<open>dir_size\<close>: a size that cannot be read leaves the sum as it
  is.
\<close>

fun dir_size_loop :: "scan_config \<Rightarrow> string \<Rightarrow> (string \<times> node) list \<Rightarrow> int \<Rightarrow> int" where
  "dir_size_loop cfg dirpath [] dir_size = dir_size"
| "dir_size_loop cfg dirpath (f # fs) dir_size =
     (if counted cfg dirpath f then
        (case getsize (snd f) of
           Some size_bytes \<Rightarrow> dir_size_loop cfg dirpath fs (dir_size + size_bytes)
         | None \<Rightarrow> dir_size_loop cfg dirpath fs dir_size)
      else dir_size_loop cfg dirpath fs dir_size)"

definition dir_entries :: "scan_config \<Rightarrow> string \<Rightarrow> (string \<times> node) list \<Rightarrow> scan_entry list" where
  "dir_entries cfg dirpath children =
     (if scan_dirs cfg then
        (let dir_size = dir_size_loop cfg dirpath (filenames children) 0
         in if min_bytes cfg \<le> dir_size then [(dirpath, dir_size)] else [])
      else [])"

fun file_loop :: "scan_config \<Rightarrow> string \<Rightarrow> (string \<times> node) list \<Rightarrow> scan_entry list" where
  "file_loop cfg dirpath [] = []"
| "file_loop cfg dirpath (f # fs) =
     (if counted cfg dirpath f then
        (case getsize (snd f) of
           Some file_size \<Rightarrow>
             (if min_bytes cfg \<le> file_size
              then (path_join dirpath (fst f), file_size) # file_loop cfg dirpath fs
              else file_loop cfg dirpath fs)
         | None \<Rightarrow> file_loop cfg dirpath fs)
      else file_loop cfg dirpath fs)"

definition file_entries :: "scan_config \<Rightarrow> string \<Rightarrow> (string \<times> node) list \<Rightarrow> scan_entry list" where
  "file_entries cfg dirpath children =
     (if scan_files cfg then file_loop cfg dirpath (filenames children) else [])"

text \<open>
  The pruning of \<open>dirnames\<close>: with \<open>ignore_dot\<close> the dot-prefixed names go, then every
  name whose joined path matches an exclusion pattern.
\<close>

definition keep_dir :: "scan_config \<Rightarrow> string \<Rightarrow> string \<Rightarrow> bool" where
  "keep_dir cfg dirpath name =
     (\<not> (ignore_dot cfg \<and> starts_dot name)
      \<and> \<not> should_exclude (path_join dirpath name) (exclusions cfg))"

text \<open>
  \<open>os.walk(root, topdown=True)\<close> with the body of the loop: \<open>walk_dir\<close> is one
  directory, the entries it appends and then those of the directories below it;
  \<open>walk_children\<close> goes through the entries of a directory in listing order and walks
  into each directory that was kept and is not a symbolic link. Inside a dot directory
  with \<open>ignore_dot\<close> the body empties \<open>dirnames\<close> and continues.
\<close>

fun walk_dir :: "scan_config \<Rightarrow> string \<Rightarrow> node \<Rightarrow> scan_entry list"
  and walk_children :: "scan_config \<Rightarrow> string \<Rightarrow> (string \<times> node) list \<Rightarrow> scan_entry list"
where
  "walk_dir cfg dirpath (Dir children) =
     (if ignore_dot cfg \<and> in_dot_directory dirpath then []
      else dir_entries cfg dirpath children @ file_entries cfg dirpath children
           @ walk_children cfg dirpath children)"
| "walk_dir cfg dirpath n = []"
| "walk_children cfg dirpath [] = []"
| "walk_children cfg dirpath (child # rest) =
     (if is_dir (snd child) \<and> keep_dir cfg dirpath (fst child)
      then walk_dir cfg (path_join dirpath (fst child)) (snd child)
      else [])
     @ walk_children cfg dirpath rest"

text \<open>
  \<open>sorted(results, key=lambda x: x[1], reverse=True)\<close>: with \<open>reverse=True\<close> Python
  reverses the list, sorts it stably in ascending order and reverses the result.
\<close>

definition sorted_reverse :: "scan_entry list \<Rightarrow> scan_entry list" where
  "sorted_reverse results = rev (sort_key snd (rev results))"

definition analyze_disk_usage :: "scan_config \<Rightarrow> string \<Rightarrow> node \<Rightarrow> scan_entry list" where
  "analyze_disk_usage cfg root root_node = sorted_reverse (walk_dir cfg root root_node)"

subsection \<open>What the walk visits and what the specification sums\<close>

text \<open>
  The directories for which the body of the loop runs to its end, in the order
  \<open>os.walk\<close> yields them, each with its entries.
\<close>

fun visited_dir :: "scan_config \<Rightarrow> string \<Rightarrow> node \<Rightarrow> (string \<times> (string \<times> node) list) list"
  and visited_children ::
    "scan_config \<Rightarrow> string \<Rightarrow> (string \<times> node) list \<Rightarrow> (string \<times> (string \<times> node) list) list"
where
  "visited_dir cfg dirpath (Dir children) =
     (if ignore_dot cfg \<and> in_dot_directory dirpath then []
      else (dirpath, children) # visited_children cfg dirpath children)"
| "visited_dir cfg dirpath n = []"
| "visited_children cfg dirpath [] = []"
| "visited_children cfg dirpath (child # rest) =
     (if is_dir (snd child) \<and> keep_dir cfg dirpath (fst child)
      then visited_dir cfg (path_join dirpath (fst child)) (snd child)
      else [])
     @ visited_children cfg dirpath rest"

text \<open>
  The sum of the specification for one directory, over the files directly in it: the
  sizes of the entries that are no symbolic links, are not excluded and are not skipped
  as dot files; an entry without a readable size, and a directory, counts as zero.
\<close>

definition size_or_zero :: "node \<Rightarrow> int" where
  "size_or_zero n = (case n of File size_bytes \<Rightarrow> size_bytes | _ \<Rightarrow> 0)"

definition direct_sum :: "scan_config \<Rightarrow> string \<Rightarrow> (string \<times> node) list \<Rightarrow> int" where
  "direct_sum cfg dirpath children =
     sum_list (map (\<lambda>entry. size_or_zero (snd entry))
       (filter (\<lambda>entry. \<not> islink (snd entry)
                  \<and> \<not> should_exclude (path_join dirpath (fst entry)) (exclusions cfg)
                  \<and> \<not> (ignore_dot cfg \<and> starts_dot (fst entry)))
          children))"

text \<open>The directory entry a visited directory gives rise to.\<close>

definition directory_entry :: "scan_config \<Rightarrow> string \<times> (string \<times> node) list \<Rightarrow> scan_entry list" where
  "directory_entry cfg visit =
     (if scan_dirs cfg \<and> min_bytes cfg \<le> direct_sum cfg (fst visit) (snd visit)
      then [(fst visit, direct_sum cfg (fst visit) (snd visit))] else [])"

text \<open>
  The sum over all direct and indirect files below a directory that are not excluded
  and no symbolic links, excluded directories left out.
\<close>

fun deep_sum :: "scan_config \<Rightarrow> string \<Rightarrow> (string \<times> node) list \<Rightarrow> int" where
  "deep_sum cfg dirpath [] = 0"
| "deep_sum cfg dirpath ((name, File size_bytes) # rest) =
     (if should_exclude (path_join dirpath name) (exclusions cfg) then 0 else size_bytes)
     + deep_sum cfg dirpath rest"
| "deep_sum cfg dirpath ((name, Dir children) # rest) =
     (if should_exclude (path_join dirpath name) (exclusions cfg) then 0
      else deep_sum cfg (path_join dirpath name) children)
     + deep_sum cfg dirpath rest"
| "deep_sum cfg dirpath ((name, n) # rest) = deep_sum cfg dirpath rest"

text \<open>
  The path reached from the root through a list of entry names, and the paths of the
  directories passed on the way, the root left out.
\<close>

definition descend :: "string \<Rightarrow> string list \<Rightarrow> string" where
  "descend root names = foldl path_join root names"

fun ancestors :: "string \<Rightarrow> string list \<Rightarrow> string list" where
  "ancestors dirpath [] = []"
| "ancestors dirpath (name # names) =
     path_join dirpath name # ancestors (path_join dirpath name) names"

text \<open>
  The walk once more, recording for every visited directory the names that lead to it
  from the root.
\<close>

fun trail_dir ::
    "scan_config \<Rightarrow> string \<Rightarrow> string list \<Rightarrow> node \<Rightarrow> (string list \<times> (string \<times> node) list) list"
  and trail_children ::
    "scan_config \<Rightarrow> string \<Rightarrow> string list \<Rightarrow> (string \<times> node) list
       \<Rightarrow> (string list \<times> (string \<times> node) list) list"
where
  "trail_dir cfg root names (Dir children) =
     (if ignore_dot cfg \<and> in_dot_directory (descend root names) then []
      else (names, children) # trail_children cfg root names children)"
| "trail_dir cfg root names n = []"
| "trail_children cfg root names [] = []"
| "trail_children cfg root names (child # rest) =
     (if is_dir (snd child) \<and> keep_dir cfg (descend root names) (fst child)
      then trail_dir cfg root (names @ [fst child]) (snd child)
      else [])
     @ trail_children cfg root names rest"

section \<open>Removal executor (\<open>safe_remove_items\<close> in diskface.py)\<close>

subsection \<open>The operating system as the executor calls it\<close>

text \<open>
  The exceptions an operating-system call can raise, by the handler that catches them:
  \<open>PermissionError\<close>, any other \<open>OSError\<close>, and any other \<open>Exception\<close>. Interrupts
  that arrive from outside the call (\<open>KeyboardInterrupt\<close>) are not part of the model.
\<close>

datatype exn = PermissionError | OSError | OtherError

text \<open>
  The calls \<open>safe_remove_items\<close> makes, over a state of the file system \<open>'w\<close>. The tests
  of \<open>os.path\<close> answer without raising; \<open>getsize\<close> may raise; \<open>os.remove\<close> and
  \<open>shutil.rmtree\<close> change the file system and may raise, also after a part of the work;
  \<open>os.walk\<close> gives its triples and swallows the errors of listing.
\<close>

record 'w os_calls =
  os_exists :: "'w \<Rightarrow> string \<Rightarrow> bool"
  os_isfile :: "'w \<Rightarrow> string \<Rightarrow> bool"
  os_isdir :: "'w \<Rightarrow> string \<Rightarrow> bool"
  os_islink :: "'w \<Rightarrow> string \<Rightarrow> bool"
  os_getsize :: "'w \<Rightarrow> string \<Rightarrow> exn + int"
  os_remove :: "'w \<Rightarrow> string \<Rightarrow> 'w \<times> exn option"
  os_rmtree :: "'w \<Rightarrow> string \<Rightarrow> 'w \<times> exn option"
  os_walk :: "'w \<Rightarrow> string \<Rightarrow> (string \<times> string list \<times> string list) list"

subsection \<open>The executor\<close>

text \<open>The lines the executor prints, one for the outcome of each item.\<close>

datatype event =
    Skipping string
  | Removed string int
  | PermissionDenied string
  | ErrorRemoving string


text \<open>
  The state of the loop: the file system, the dictionary \<open>removed\<close> in insertion order
  and what was printed.
\<close>

record 'w removal_state =
  world :: 'w
  removed :: "(string \<times> int) list"
  console :: "event list"

text \<open>\<open>d[key] = value\<close>: a key already present keeps its place.\<close>

fun dict_set :: "(string \<times> int) list \<Rightarrow> string \<Rightarrow> int \<Rightarrow> (string \<times> int) list" where
  "dict_set [] key v = [(key, v)]"
| "dict_set ((k, old) # rest) key v =
     (if k = key then (k, v) # rest else (k, old) # dict_set rest key v)"

text \<open>
  The inner loops over \<open>os.walk(path)\<close>: the size of every file that is no symbolic
  link is added; an \<open>OSError\<close> of \<open>getsize\<close> is caught and the file skipped, any other
  exception leaves the loops.
\<close>

fun size_files :: "'w os_calls \<Rightarrow> 'w \<Rightarrow> string \<Rightarrow> string list \<Rightarrow> int \<Rightarrow> exn + int" where
  "size_files os w dirpath [] actual_size = Inr actual_size"
| "size_files os w dirpath (filename # rest) actual_size =
     (let filepath = path_join dirpath filename in
      if os_islink os w filepath then size_files os w dirpath rest actual_size
      else
        (case os_getsize os w filepath of
           Inr size_bytes \<Rightarrow> size_files os w dirpath rest (actual_size + size_bytes)
         | Inl OtherError \<Rightarrow> Inl OtherError
         | Inl e \<Rightarrow> size_files os w dirpath rest actual_size))"

fun size_walk ::
  "'w os_calls \<Rightarrow> 'w \<Rightarrow> (string \<times> string list \<times> string list) list \<Rightarrow> int \<Rightarrow> exn + int"
where
  "size_walk os w [] actual_size = Inr actual_size"
| "size_walk os w ((dirpath, dirnames, files) # rest) actual_size =
     (case size_files os w dirpath files actual_size of
        Inl e \<Rightarrow> Inl e
      | Inr subtotal \<Rightarrow> size_walk os w rest subtotal)"

text \<open>
  The body of the \<open>try\<close> for one path: \<open>Inr None\<close> is the \<open>continue\<close> of a path that no
  longer exists, \<open>Inr (Some actual_size)\<close> is reaching \<open>removed[path] = actual_size\<close>,
  \<open>Inl e\<close> is the exception \<open>e\<close>. A path that exists and is neither a file nor a
  directory passes both branches with \<open>actual_size = 0\<close>.
\<close>

definition try_remove :: "'w os_calls \<Rightarrow> 'w \<Rightarrow> string \<Rightarrow> 'w \<times> (exn + int option)" where
  "try_remove os w path =
     (if \<not> os_exists os w path then (w, Inr None)
      else if os_isfile os w path then
        (case os_getsize os w path of
           Inl e \<Rightarrow> (w, Inl e)
         | Inr actual_size \<Rightarrow>
             (case os_remove os w path of
                (w', Some e) \<Rightarrow> (w', Inl e)
              | (w', None) \<Rightarrow> (w', Inr (Some actual_size))))
      else if os_isdir os w path then
        (case size_walk os w (os_walk os w path) 0 of
           Inl e \<Rightarrow> (w, Inl e)
         | Inr actual_size \<Rightarrow>
             (case os_rmtree os w path of
                (w', Some e) \<Rightarrow> (w', Inl e)
              | (w', None) \<Rightarrow> (w', Inr (Some actual_size))))
      else (w, Inr (Some 0)))"

text \<open>One turn of the loop, with the two handlers.\<close>

definition remove_item ::
  "'w os_calls \<Rightarrow> 'w removal_state \<Rightarrow> string \<times> int \<Rightarrow> 'w removal_state"
where
  "remove_item os st item =
     (let path = fst item in
      case try_remove os (world st) path of
        (w', Inr None) \<Rightarrow>
          st\<lparr>world := w', console := console st @ [Skipping path]\<rparr>
      | (w', Inr (Some actual_size)) \<Rightarrow>
          st\<lparr>world := w', removed := dict_set (removed st) path actual_size,
             console := console st @ [Removed path actual_size]\<rparr>
      | (w', Inl PermissionError) \<Rightarrow>
          st\<lparr>world := w', console := console st @ [PermissionDenied path]\<rparr>
      | (w', Inl e) \<Rightarrow>
          st\<lparr>world := w', console := console st @ [ErrorRemoving path]\<rparr>)"

fun remove_loop ::
  "'w os_calls \<Rightarrow> 'w removal_state \<Rightarrow> (string \<times> int) list \<Rightarrow> 'w removal_state"
where
  "remove_loop os st [] = st"
| "remove_loop os st (item # items) = remove_loop os (remove_item os st item) items"

definition safe_remove_items ::
  "'w os_calls \<Rightarrow> 'w \<Rightarrow> (string \<times> int) list \<Rightarrow> 'w removal_state"
where
  "safe_remove_items os w selected_items =
     remove_loop os \<lparr>world = w, removed = [], console = []\<rparr> selected_items"

subsection \<open>A small file system to run the executor on\<close>

text \<open>
  Paths with what they are: a regular file with its size, a regular file that may not
  be removed, a directory with the names of the files in it, and a named pipe.
\<close>

datatype disk_entry = Regular int | Protected int | Folder "string list" | Pipe

type_synonym disk = "(string \<times> disk_entry) list"

definition disk_is_regular :: "disk \<Rightarrow> string \<Rightarrow> bool" where
  "disk_is_regular d path =
     (case map_of d path of Some (Regular n) \<Rightarrow> True | Some (Protected n) \<Rightarrow> True | _ \<Rightarrow> False)"

definition disk_getsize :: "disk \<Rightarrow> string \<Rightarrow> exn + int" where
  "disk_getsize d path =
     (case map_of d path of
        Some (Regular n) \<Rightarrow> Inr n
      | Some (Protected n) \<Rightarrow> Inr n
      | Some e \<Rightarrow> Inr 0
      | None \<Rightarrow> Inl OSError)"

definition disk_delete :: "disk \<Rightarrow> string list \<Rightarrow> disk" where
  "disk_delete d paths = filter (\<lambda>entry. fst entry \<notin> set paths) d"

definition disk_remove :: "disk \<Rightarrow> string \<Rightarrow> disk \<times> exn option" where
  "disk_remove d path =
     (case map_of d path of
        Some (Regular n) \<Rightarrow> (disk_delete d [path], None)
      | Some (Protected n) \<Rightarrow> (d, Some PermissionError)
      | Some e \<Rightarrow> (d, Some OSError)
      | None \<Rightarrow> (d, Some OSError))"

definition disk_files :: "disk \<Rightarrow> string \<Rightarrow> string list" where
  "disk_files d path = (case map_of d path of Some (Folder names) \<Rightarrow> names | _ \<Rightarrow> [])"

definition disk_rmtree :: "disk \<Rightarrow> string \<Rightarrow> disk \<times> exn option" where
  "disk_rmtree d path =
     (case map_of d path of
        Some (Folder names) \<Rightarrow>
          (if list_ex (\<lambda>name. case map_of d (path_join path name) of
                                 Some (Protected n) \<Rightarrow> True | _ \<Rightarrow> False) names
           then (d, Some PermissionError)
           else (disk_delete d (path # map (path_join path) names), None))
      | _ \<Rightarrow> (d, Some OSError))"

definition disk_os :: "disk os_calls" where
  "disk_os =
     \<lparr>os_exists = (\<lambda>d path. map_of d path \<noteq> None),
      os_isfile = disk_is_regular,
      os_isdir = (\<lambda>d path. case map_of d path of Some (Folder names) \<Rightarrow> True | _ \<Rightarrow> False),
      os_islink = (\<lambda>d path. False),
      os_getsize = disk_getsize,
      os_remove = disk_remove,
      os_rmtree = disk_rmtree,
      os_walk = (\<lambda>d path. [(path, [], disk_files d path)])\<rparr>"

section \<open>Properties of the selection parser\<close>

lemma lower_char_cases:
  assumes "lower_char c = d"
  shows "c = d \<or> (65 \<le> (of_char c :: nat) \<and> (of_char c :: nat) \<le> 90 \<and> (of_char d :: nat) = of_char c + 32)"
proof (cases "65 \<le> (of_char c :: nat) \<and> (of_char c :: nat) \<le> 90")
  case True
  then have "d = char_of (of_char c + 32 :: nat)"
    using assms by (simp add: lower_char_def)
  then have "(of_char d :: nat) = (of_char c + 32) mod 256"
    by simp
  with True show ?thesis by simp
next
  case False
  then show ?thesis using assms by (auto simp: lower_char_def)
qed

lemma lower_char_a: 
  assumes "lower_char c = CHR ''a''" shows "c = CHR ''a'' \<or> c = CHR ''A''"
  using lower_char_cases[OF assms]
proof
  assume "c = CHR ''a''" then show ?thesis by simp
next
  assume "65 \<le> (of_char c :: nat) \<and> (of_char c :: nat) \<le> 90 \<and> (of_char CHR ''a'' :: nat) = of_char c + 32"
  then have "(of_char c :: nat) = of_char CHR ''A''" by simp
  then have "c = CHR ''A''" by (simp only: of_char_eq_iff)
  then show ?thesis by simp
qed

lemma lower_char_l: 
  assumes "lower_char c = CHR ''l''" shows "c = CHR ''l'' \<or> c = CHR ''L''"
  using lower_char_cases[OF assms]
proof
  assume "c = CHR ''l''" then show ?thesis by simp
next
  assume "65 \<le> (of_char c :: nat) \<and> (of_char c :: nat) \<le> 90 \<and> (of_char CHR ''l'' :: nat) = of_char c + 32"
  then have "(of_char c :: nat) = of_char CHR ''L''" by simp
  then have "c = CHR ''L''" by (simp only: of_char_eq_iff)
  then show ?thesis by simp
qed

lemma lower_all_cases:
  assumes "lower s = ''all''"
  shows "s \<in> {''all'', ''alL'', ''aLl'', ''aLL'', ''All'', ''AlL'', ''ALl'', ''ALL''}"
proof -
  from assms obtain a b c where s: "s = [a, b, c]"
    and "lower_char a = CHR ''a''" "lower_char b = CHR ''l''" "lower_char c = CHR ''l''"
    by (auto simp: lower_def map_eq_Cons_conv)
  then have "a = CHR ''a'' \<or> a = CHR ''A''" "b = CHR ''l'' \<or> b = CHR ''L''" "c = CHR ''l'' \<or> c = CHR ''L''"
    by (auto dest: lower_char_a lower_char_l)
  with s show ?thesis by auto
qed

lemma parts_of_all: "lower s = ''all'' \<Longrightarrow> selection_parts s = [s]"
  by (drule lower_all_cases) (auto simp: selection_parts_def py_split_def replace_char_def is_space_def)

lemma all_not_int: "lower t = ''all'' \<Longrightarrow> parse_part m t = Inl ValueError"
  by (drule lower_all_cases) (auto simp: parse_part_def py_int_def strip_def is_space_def int_unsigned_def is_digit_def)

lemma parse_loop_reject:
  "\<exists>t\<in>set ts. \<exists>e. parse_part m t = Inl e \<Longrightarrow> \<exists>e. parse_loop m ts acc = Inl e"
  by (induction ts arbitrary: acc) (auto split: sum.splits)

lemma split_ws_spaces: "\<forall>c\<in>set s. is_space c \<Longrightarrow> split_ws [] s = []"
  by (induction s) auto

lemma spaces_not_all: "\<forall>c\<in>set s. is_space c \<Longrightarrow> lower s \<noteq> ''all''"
  by (auto dest!: lower_all_cases simp: is_space_def)

lemma invalidating_rejected:
  "invalidating m t \<Longrightarrow> \<exists>e. parse_part m t = Inl e"
  by (auto simp: invalidating_def classify_def parse_part_def all_not_int
           split: if_splits option.splits)

text \<open>
  Claim C3. If any token of the input is malformed, names a value outside
  \<open>[1, max_items]\<close> or is an inverted range, the whole input is rejected: the result is
  the empty list, which the callers read as "not ok", whatever the other tokens are. In
  particular \<open>0-2\<close> and \<open>3-2\<close> are rejected for five items.
\<close>

theorem parse_selection_rejects_whole_input:
  "((\<exists>t\<in>set (selection_parts s). invalidating m t) \<longrightarrow>
      parse_selection s m = [] \<and> \<not> selection_ok (parse_selection s m))
   \<and> parse_selection ''0-2'' 5 = [] \<and> parse_selection ''3-2'' 5 = []"
proof (intro conjI impI)
  assume bad: "\<exists>t\<in>set (selection_parts s). invalidating m t"
  have not_all: "lower s \<noteq> ''all''"
  proof
    assume a: "lower s = ''all''"
    then have "selection_parts s = [s]" by (rule parts_of_all)
    with bad have "invalidating m s" by simp
    with a show False by (simp add: invalidating_def classify_def)
  qed
  from bad have "\<exists>t\<in>set (selection_parts s). \<exists>e. parse_part m t = Inl e"
    by (blast dest: invalidating_rejected)
  then obtain e where "parse_loop m (selection_parts s) [] = Inl e"
    using parse_loop_reject by blast
  with not_all show "parse_selection s m = []"
    by (simp add: parse_selection_def)
  then show "\<not> selection_ok (parse_selection s m)"
    by (simp add: selection_ok_def)
next
  show "parse_selection ''0-2'' 5 = []" by code_simp
  show "parse_selection ''3-2'' 5 = []" by code_simp
qed

text \<open>The valid tokens \<open>1\<close> and \<open>4\<close> around the inverted range \<open>3-2\<close> are not accepted.\<close>

theorem parse_selection_rejects_whole_input_witness:
  "(\<exists>t\<in>set (selection_parts ''1 3-2 4''). invalidating 5 t) \<and> parse_selection ''1 3-2 4'' 5 = []"
proof -
  have h: "\<exists>t\<in>set (selection_parts ''1 3-2 4''). invalidating 5 t"
    by code_simp
  with parse_selection_rejects_whole_input [of "''1 3-2 4''" 5] show ?thesis by blast
qed

text \<open>
  Claim C7, as amended. The result of \<open>parse_selection\<close> is ascending and free of
  duplicates for every input, hence for every accepted one; an input that is, as a
  whole, \<open>all\<close> in any letter case gives every index from 1 to \<open>max_items\<close>; \<open>all\<close>
  with five items gives 1 to 5 and \<open>2-4 1\<close> gives 1 to 4.
\<close>

theorem parse_selection_sorted_distinct:
  "sorted (parse_selection s m) \<and> distinct (parse_selection s m)
   \<and> (lower s = ''all'' \<longrightarrow> parse_selection s m = [1..m])
   \<and> parse_selection ''all'' 5 = [1, 2, 3, 4, 5]
   \<and> parse_selection ''2-4 1'' 5 = [1, 2, 3, 4]"
proof (intro conjI impI)
  show "sorted (parse_selection s m)" by (auto simp: parse_selection_def split: sum.splits)
  show "distinct (parse_selection s m)" by (auto simp: parse_selection_def split: sum.splits)
  show "parse_selection s m = [1..m]" if "lower s = ''all''"
    using that by (simp add: parse_selection_def)
  show "parse_selection ''all'' 5 = [1, 2, 3, 4, 5]" by code_simp
  show "parse_selection ''2-4 1'' 5 = [1, 2, 3, 4]" by code_simp
qed

theorem parse_selection_sorted_distinct_witness:
  "lower ''aLL'' = ''all'' \<and> parse_selection ''aLL'' 3 = [1, 2, 3]"
proof -
  have h: "lower ''aLL'' = ''all''" by code_simp
  have u: "[1..3] = [1, 2, (3::int)]" by code_simp
  from parse_selection_sorted_distinct [of "''aLL''" 3] h u show ?thesis by simp
qed

text \<open>
  The literal \<open>all\<close> is not expanded as a token: followed or preceded by a blank, or
  followed by a comma, the input has the single token \<open>all\<close> and is rejected.
\<close>

theorem all_token_with_separator_rejected:
  "selection_parts ''all '' = [''all''] \<and> parse_selection ''all '' 5 = []
   \<and> selection_parts '' all'' = [''all''] \<and> parse_selection '' all'' 5 = []
   \<and> selection_parts ''all,'' = [''all''] \<and> parse_selection ''all,'' 5 = []"
  by code_simp

text \<open>
  Claim C10. The keyword \<open>all\<close> is recognised only as the whole input: an input that is
  not \<open>all\<close> itself but has \<open>all\<close> among its tokens (so every input with \<open>all\<close> and
  another token) is rejected with the empty list, and an empty or whitespace-only input
  gives the empty list too, which the callers cannot tell from a rejection.
\<close>

theorem parse_selection_all_is_whole_input:
  "(lower s \<noteq> ''all'' \<and> (\<exists>t\<in>set (selection_parts s). lower t = ''all'') \<longrightarrow>
      parse_selection s m = [])
   \<and> (2 \<le> length (selection_parts s) \<and> (\<exists>t\<in>set (selection_parts s). lower t = ''all'') \<longrightarrow>
      parse_selection s m = [] \<and> \<not> selection_ok (parse_selection s m))
   \<and> ((\<forall>c\<in>set s. is_space c) \<longrightarrow> parse_selection s m = [] \<and> \<not> selection_ok (parse_selection s m))"
proof -
  have one: "parse_selection s m = []"
    if "lower s \<noteq> ''all''" "\<exists>t\<in>set (selection_parts s). lower t = ''all''"
  proof -
    from that(2) have "\<exists>t\<in>set (selection_parts s). \<exists>e. parse_part m t = Inl e"
      by (blast intro: all_not_int)
    then obtain e where "parse_loop m (selection_parts s) [] = Inl e"
      using parse_loop_reject by blast
    with that(1) show ?thesis by (simp add: parse_selection_def)
  qed
  have two: "lower s \<noteq> ''all''" if "2 \<le> length (selection_parts s)"
    using that parts_of_all [of s] by auto
  have three: "parse_selection s m = []" if "\<forall>c\<in>set s. is_space c"
  proof -
    have "\<forall>c\<in>set (replace_char CHR '','' CHR '' '' s). is_space c"
      using that by (auto simp: replace_char_def is_space_def)
    then have "selection_parts s = []"
      by (simp add: selection_parts_def py_split_def split_ws_spaces)
    with spaces_not_all [OF that] show ?thesis by (simp add: parse_selection_def)
  qed
  show ?thesis using one two three by (auto simp: selection_ok_def)
qed

theorem parse_selection_all_is_whole_input_witness:
  "lower ''1 All'' \<noteq> ''all'' \<and> (\<exists>t\<in>set (selection_parts ''1 All''). lower t = ''all'')
   \<and> 2 \<le> length (selection_parts ''1 All'') \<and> list_all is_space ''  ''
   \<and> parse_selection ''1 All'' 5 = [] \<and> parse_selection ''  '' 5 = []"
proof -
  have a: "lower ''1 All'' \<noteq> ''all''" by code_simp
  have b: "\<exists>t\<in>set (selection_parts ''1 All''). lower t = ''all''" by code_simp
  have c: "2 \<le> length (selection_parts ''1 All'')" by code_simp
  have d: "list_all is_space ''  ''" by code_simp
  then have d': "\<forall>c\<in>set ''  ''. is_space c" by (simp only: list_all_iff)
  from parse_selection_all_is_whole_input [of "''1 All''" 5] a b
  have e: "parse_selection ''1 All'' 5 = []" by blast
  from parse_selection_all_is_whole_input [of "''  ''" 5] d'
  have f: "parse_selection ''  '' 5 = []" by blast
  from a b c d e f show ?thesis by blast
qed

section \<open>Properties of the pattern matcher\<close>

lemma slice_of_window:
  "length w = k \<Longrightarrow> py_slice (before @ w @ after) (length before) (length before + k) = w"
  by (simp add: py_slice_def)

lemma window_index_in_range:
  "length w = k \<Longrightarrow>
   length before \<in> set (py_range (int (length (before @ w @ after)) - int k + 1))"
  by (simp add: py_range_def)

lemma range_index_fits:
  "i \<in> set (py_range (int n - int k + 1)) \<Longrightarrow> i + k \<le> n"
  by (auto simp: py_range_def)

lemma split_at_window:
  assumes le: "i + k \<le> length segs"
  shows "segs = take i segs @ py_slice segs i (i + k) @ drop (i + k) segs
         \<and> length (py_slice segs i (i + k)) = k"
proof -
  have "take k (drop i segs) @ drop k (drop i segs) = drop i segs"
    by (rule append_take_drop_id)
  then have mid: "take k (drop i segs) @ drop (k + i) segs = drop i segs"
    by (simp only: drop_drop)
  have "take i segs @ drop i segs = segs"
    by (rule append_take_drop_id)
  with mid have "segs = take i segs @ take k (drop i segs) @ drop (k + i) segs"
    by simp
  moreover have "k + i = i + k" by simp
  ultimately have "segs = take i segs @ take k (drop i segs) @ drop (i + k) segs"
    by (simp only:)
  moreover have "py_slice segs i (i + k) = take k (drop i segs)"
    by (simp add: py_slice_def)
  moreover have "length (take k (drop i segs)) = k"
    using le by simp
  ultimately show ?thesis by (simp only:)
qed

lemma window_match_scan: "window_match segs pattern = window_scan segs pattern"
proof
  let ?K = "length (split_on CHR ''/'' pattern)"
  assume "window_match segs pattern"
  then obtain before w after where
    segs: "segs = before @ w @ after" and len: "length w = ?K"
    and m: "fnmatch (lower (join CHR ''/'' w)) (lower pattern)"
    unfolding window_match_def by blast
  have sl: "py_slice segs (length before) (length before + ?K) = w"
    unfolding segs using len by (rule slice_of_window)
  have rg: "length before \<in> set (py_range (int (length segs) - int ?K + 1))"
    unfolding segs using len by (rule window_index_in_range)
  from m sl have "fnmatch (lower (join CHR ''/'' (py_slice segs (length before) (length before + ?K))))
                    (lower pattern)"
    by (simp only:)
  with rg show "window_scan segs pattern"
    unfolding window_scan_def Let_def list_ex_iff by (rule bexI [rotated])
next
  let ?K = "length (split_on CHR ''/'' pattern)"
  assume "window_scan segs pattern"
  then obtain i where i: "i \<in> set (py_range (int (length segs) - int ?K + 1))"
    and m: "fnmatch (lower (join CHR ''/'' (py_slice segs i (i + ?K)))) (lower pattern)"
    unfolding window_scan_def Let_def list_ex_iff by blast
  from i have le: "i + ?K \<le> length segs"
    by (rule range_index_fits)
  from split_at_window [OF le] m show "window_match segs pattern"
    unfolding window_match_def by blast
qed

text \<open>
  Claim C2, as amended. For a non-empty pattern that is neither absolute nor has a \<open>**\<close>
  segment, \<open>path_matches_pattern\<close> holds exactly when some contiguous window of the
  segments of the path as \<open>PurePath\<close> normalises it, as long as the pattern has segments
  and joined with \<open>/\<close>, matches the pattern as a case-insensitive glob.
\<close>

theorem relative_pattern_matches_window:
  assumes "pattern \<noteq> []" and "\<not> is_absolute pattern"
    and "''**'' \<notin> set (split_on CHR ''/'' pattern)"
  shows "path_matches_pattern path pattern
         = window_match (split_on CHR ''/'' (purepath_str path)) pattern"
proof -
  have "path_matches_pattern path pattern
        = window_scan (split_on CHR ''/'' (purepath_str path)) pattern"
    using assms(2,3) unfolding path_matches_pattern_def window_scan_def Let_def by simp
  then show ?thesis by (simp only: window_match_scan)
qed

text \<open>
  The windows are taken over the normalised path, not over the path as given: \<open>a//b\<close>
  matches the pattern \<open>a/b\<close>, although no two neighbouring pieces of \<open>a//b\<close> cut at
  \<open>/\<close> do.
\<close>

theorem raw_split_window_counterexample:
  "path_matches_pattern ''a//b'' ''a/b'' \<and> \<not> window_match (split_on CHR ''/'' ''a//b'') ''a/b''"
proof
  show "path_matches_pattern ''a//b'' ''a/b''" by code_simp
  have "\<not> window_scan (split_on CHR ''/'' ''a//b'') ''a/b''" by code_simp
  then show "\<not> window_match (split_on CHR ''/'' ''a//b'') ''a/b''"
    unfolding window_match_scan .
qed

theorem relative_pattern_matches_window_witness:
  "''.cache'' \<noteq> [] \<and> \<not> is_absolute ''.cache'' \<and> ''**'' \<notin> set (split_on CHR ''/'' ''.cache'')
   \<and> path_matches_pattern ''/u/.Cache/x'' ''.cache''
   \<and> window_match (split_on CHR ''/'' (purepath_str ''/u/.Cache/x'')) ''.cache''"
proof -
  have a: "''.cache'' \<noteq> []" by simp
  have b: "\<not> is_absolute ''.cache''" by code_simp
  have c: "''**'' \<notin> set (split_on CHR ''/'' ''.cache'')" by code_simp
  have d: "path_matches_pattern ''/u/.Cache/x'' ''.cache''" by code_simp
  have e: "window_match (split_on CHR ''/'' (purepath_str ''/u/.Cache/x'')) ''.cache''"
    by (rule iffD1 [OF relative_pattern_matches_window [OF a b c, of "''/u/.Cache/x''"] d])
  from a b c d e show ?thesis by (intro conjI)
qed

text \<open>
  Claim C9 at the path \<open>/a\<close>: the empty pattern matches it, because the normalised
  path cut at \<open>/\<close> starts with an empty segment, and so an exclusion list holding only
  the empty pattern excludes \<open>/a\<close>.
\<close>

theorem empty_pattern_matches_absolute_path:
  "path_matches_pattern ''/a'' '''' \<and> should_exclude ''/a'' ['''']"
  by code_simp

section \<open>Properties of the scan\<close>

lemma sorted_reverse_descending: "sorted_wrt (\<lambda>a b. snd b \<le> snd a) (sorted_reverse xs)"
proof -
  have "sorted (map snd (sort_key snd (rev xs)))"
    by (rule sorted_sort_key)
  then have "sorted_wrt (\<lambda>a b. snd a \<le> snd b) (sort_key snd (rev xs))"
    by (simp add: sorted_wrt_map)
  then show ?thesis
    by (simp add: sorted_reverse_def sorted_wrt_rev)
qed

lemma sorted_reverse_stable:
  "filter (\<lambda>e. snd e = k) (sorted_reverse xs) = filter (\<lambda>e. snd e = k) xs"
proof -
  have "filter (\<lambda>e. snd e = k) (sort_key snd (rev xs)) = filter (\<lambda>e. snd e = k) (rev xs)"
    by (rule sort_key_stable)
  then have "rev (filter (\<lambda>e. snd e = k) (sort_key snd (rev xs))) = filter (\<lambda>e. snd e = k) xs"
    by (simp add: rev_filter)
  then show ?thesis
    by (simp add: sorted_reverse_def rev_filter)
qed

lemma sorted_reverse_mset: "mset (sorted_reverse xs) = mset xs"
  by (simp add: sorted_reverse_def)

text \<open>
  Claim C8. The list \<open>analyze_disk_usage\<close> returns is in descending order of size, holds
  the entries the walk appended and no others, and keeps the entries of any one size in
  the order in which the walk appended them.
\<close>

theorem scan_result_sorted_stable:
  "sorted_wrt (\<lambda>a b. snd b \<le> snd a) (analyze_disk_usage cfg root root_node)
   \<and> mset (analyze_disk_usage cfg root root_node) = mset (walk_dir cfg root root_node)
   \<and> filter (\<lambda>e. snd e = k) (analyze_disk_usage cfg root root_node)
       = filter (\<lambda>e. snd e = k) (walk_dir cfg root root_node)"
  unfolding analyze_disk_usage_def
  using sorted_reverse_descending sorted_reverse_mset sorted_reverse_stable by blast

lemma dir_size_loop_sum:
  "dir_size_loop cfg dirpath fs acc
   = acc + sum_list (map (\<lambda>entry. size_or_zero (snd entry)) (filter (counted cfg dirpath) fs))"
proof (induction fs arbitrary: acc)
  case Nil
  then show ?case by simp
next
  case (Cons f fs)
  show ?case
  proof (cases "counted cfg dirpath f")
    case True
    then show ?thesis
      using Cons.IH by (cases "snd f") (simp_all add: size_or_zero_def)
  next
    case False
    then show ?thesis using Cons.IH by simp
  qed
qed

lemma is_dir_size_zero: "is_dir n \<Longrightarrow> size_or_zero n = 0"
  by (cases n) (simp_all add: size_or_zero_def)

lemma counted_files_sum:
  "sum_list (map (\<lambda>entry. size_or_zero (snd entry)) (filter (counted cfg dirpath) (filenames children)))
   = direct_sum cfg dirpath children"
proof (induction children)
  case Nil
  then show ?case by (simp add: filenames_def direct_sum_def)
next
  case (Cons c cs)
  obtain name n where c: "c = (name, n)" by (cases c)
  from Cons.IH show ?case
    unfolding filenames_def direct_sum_def c
    by (auto simp: counted_def is_dir_size_zero)
qed

lemma dir_entries_direct:
  "dir_entries cfg dirpath children = directory_entry cfg (dirpath, children)"
  by (simp add: dir_entries_def directory_entry_def Let_def dir_size_loop_sum counted_files_sum)

lemma walk_visited:
  "walk_dir cfg dirpath n
     = concat (map (\<lambda>v. directory_entry cfg v @ file_entries cfg (fst v) (snd v))
                (visited_dir cfg dirpath n))"
  "walk_children cfg dirpath children
     = concat (map (\<lambda>v. directory_entry cfg v @ file_entries cfg (fst v) (snd v))
                (visited_children cfg dirpath children))"
proof (induction cfg dirpath n and cfg dirpath children rule: walk_dir_walk_children.induct)
  case (1 cfg dirpath children)
  then show ?case by (simp add: dir_entries_direct)
next
  case (4 cfg dirpath child rest)
  let ?emit = "\<lambda>v. directory_entry cfg v @ file_entries cfg (fst v) (snd v)"
  show ?case
  proof (cases "is_dir (snd child) \<and> keep_dir cfg dirpath (fst child)")
    case True
    then have "walk_children cfg dirpath (child # rest)
               = walk_dir cfg (path_join dirpath (fst child)) (snd child)
                 @ walk_children cfg dirpath rest"
      by (simp only: walk_children.simps if_True simp_thms)
    moreover from True have "visited_children cfg dirpath (child # rest)
               = visited_dir cfg (path_join dirpath (fst child)) (snd child)
                 @ visited_children cfg dirpath rest"
      by (simp only: visited_children.simps if_True simp_thms)
    ultimately show ?thesis using 4(1) [OF True] 4(2) by simp
  next
    case False
    then have "walk_children cfg dirpath (child # rest) = walk_children cfg dirpath rest"
      by (simp only: walk_children.simps if_False append_Nil simp_thms)
    moreover from False have "visited_children cfg dirpath (child # rest)
               = visited_children cfg dirpath rest"
      by (simp only: visited_children.simps if_False append_Nil simp_thms)
    ultimately show ?thesis using 4(2) by simp
  qed
qed simp_all

text \<open>
  Claim C1, as amended. The walk appends, for each visited directory in turn, its
  directory entry and then its file entries; in directory mode the result holds exactly
  the visited directories whose sum over the files directly in them (not excluded, no
  symbolic links, not skipped as dot files) reaches the threshold, each recorded with
  that sum.
\<close>

theorem directory_entry_is_direct_sum:
  "walk_dir cfg root root_node
     = concat (map (\<lambda>v. directory_entry cfg v @ file_entries cfg (fst v) (snd v))
                (visited_dir cfg root root_node))
   \<and> (scan_dirs cfg \<and> \<not> scan_files cfg \<longrightarrow>
        (e \<in> set (analyze_disk_usage cfg root root_node)
         \<longleftrightarrow> (\<exists>v\<in>set (visited_dir cfg root root_node).
                e = (fst v, direct_sum cfg (fst v) (snd v))
                \<and> min_bytes cfg \<le> direct_sum cfg (fst v) (snd v))))"
proof (intro conjI impI)
  show w: "walk_dir cfg root root_node
     = concat (map (\<lambda>v. directory_entry cfg v @ file_entries cfg (fst v) (snd v))
                (visited_dir cfg root root_node))"
    by (rule walk_visited(1))
  assume mode: "scan_dirs cfg \<and> \<not> scan_files cfg"
  have "set (analyze_disk_usage cfg root root_node) = set (walk_dir cfg root root_node)"
    by (simp add: analyze_disk_usage_def sorted_reverse_def)
  also have "\<dots> = (\<Union>v\<in>set (visited_dir cfg root root_node). set (directory_entry cfg v))"
    using mode by (simp add: w file_entries_def)
  finally show "e \<in> set (analyze_disk_usage cfg root root_node)
         \<longleftrightarrow> (\<exists>v\<in>set (visited_dir cfg root root_node).
                e = (fst v, direct_sum cfg (fst v) (snd v))
                \<and> min_bytes cfg \<le> direct_sum cfg (fst v) (snd v))"
    using mode by (auto simp: directory_entry_def split: if_splits)
qed

text \<open>
  Files in nested directories are not counted: \<open>/r\<close> with a file of 150 bytes and a
  subdirectory holding 200 bytes is recorded with 150, while the sum over all files
  below it is 350.
\<close>

theorem nested_files_not_counted:
  "analyze_disk_usage
     \<lparr>exclusions = [], min_bytes = 100, scan_files = False, scan_dirs = True, ignore_dot = False\<rparr>
     ''/r'' (Dir [(''a'', File 150), (''sub'', Dir [(''big'', File 200)])])
     = [(''/r/sub'', 200), (''/r'', 150)]
   \<and> deep_sum
       \<lparr>exclusions = [], min_bytes = 100, scan_files = False, scan_dirs = True, ignore_dot = False\<rparr>
       ''/r'' [(''a'', File 150), (''sub'', Dir [(''big'', File 200)])] = 350"
  by code_simp

theorem directory_entry_is_direct_sum_witness:
  "scan_dirs \<lparr>exclusions = [''skip''], min_bytes = 100, scan_files = False, scan_dirs = True,
              ignore_dot = False\<rparr>
   \<and> \<not> scan_files \<lparr>exclusions = [''skip''], min_bytes = 100, scan_files = False, scan_dirs = True,
              ignore_dot = False\<rparr>
   \<and> (''/r'', 120) \<in> set (analyze_disk_usage
        \<lparr>exclusions = [''skip''], min_bytes = 100, scan_files = False, scan_dirs = True,
              ignore_dot = False\<rparr>
        ''/r'' (Dir [(''a'', File 120), (''skip'', File 50), (''l'', Symlink),
                     (''sub'', Dir [(''big'', File 99)])]))"
proof -
  let ?cfg = "\<lparr>exclusions = [''skip''], min_bytes = 100, scan_files = False, scan_dirs = True,
              ignore_dot = False\<rparr>"
  let ?tree = "Dir [(''a'', File 120), (''skip'', File 50), (''l'', Symlink),
                     (''sub'', Dir [(''big'', File 99)])]"
  have m: "scan_dirs ?cfg \<and> \<not> scan_files ?cfg" by simp
  have v: "\<exists>v\<in>set (visited_dir ?cfg ''/r'' ?tree).
             (''/r'', 120) = (fst v, direct_sum ?cfg (fst v) (snd v))
             \<and> min_bytes ?cfg \<le> direct_sum ?cfg (fst v) (snd v)"
    by code_simp
  from directory_entry_is_direct_sum [of ?cfg "''/r''" ?tree "(''/r'', 120)"] m v
  have "(''/r'', 120) \<in> set (analyze_disk_usage ?cfg ''/r'' ?tree)" by blast
  with m show ?thesis by blast
qed

lemma descend_snoc: "descend root (names @ [name]) = path_join (descend root names) name"
  by (simp add: descend_def)

lemma ancestors_snoc:
  "ancestors root (names @ [name]) = ancestors root names @ [descend root (names @ [name])]"
  by (induction names arbitrary: root) (simp_all add: descend_def)

lemma trail_visited:
  "map (\<lambda>t. (descend root (fst t), snd t)) (trail_dir cfg root names n)
     = visited_dir cfg (descend root names) n"
  "map (\<lambda>t. (descend root (fst t), snd t)) (trail_children cfg root names children)
     = visited_children cfg (descend root names) children"
proof (induction cfg root names n and cfg root names children
       rule: trail_dir_trail_children.induct)
  case (1 cfg root names children)
  then show ?case by simp
next
  case (4 cfg root names child rest)
  show ?case
  proof (cases "is_dir (snd child) \<and> keep_dir cfg (descend root names) (fst child)")
    case True
    then have "trail_children cfg root names (child # rest)
               = trail_dir cfg root (names @ [fst child]) (snd child)
                 @ trail_children cfg root names rest"
      by (simp only: trail_children.simps if_True simp_thms)
    moreover from True have "visited_children cfg (descend root names) (child # rest)
               = visited_dir cfg (path_join (descend root names) (fst child)) (snd child)
                 @ visited_children cfg (descend root names) rest"
      by (simp only: visited_children.simps if_True simp_thms)
    ultimately show ?thesis using 4(1) [OF True] 4(2) by (simp add: descend_snoc)
  next
    case False
    then have "trail_children cfg root names (child # rest) = trail_children cfg root names rest"
      by (simp only: trail_children.simps if_False append_Nil simp_thms)
    moreover from False have "visited_children cfg (descend root names) (child # rest)
               = visited_children cfg (descend root names) rest"
      by (simp only: visited_children.simps if_False append_Nil simp_thms)
    ultimately show ?thesis using 4(2) by simp
  qed
qed simp_all

lemma trail_not_excluded:
  "\<forall>d\<in>set (ancestors root names). \<not> should_exclude d (exclusions cfg) \<Longrightarrow>
   \<forall>t\<in>set (trail_dir cfg root names n).
     \<forall>d\<in>set (ancestors root (fst t)). \<not> should_exclude d (exclusions cfg)"
  "\<forall>d\<in>set (ancestors root names). \<not> should_exclude d (exclusions cfg) \<Longrightarrow>
   \<forall>t\<in>set (trail_children cfg root names children).
     \<forall>d\<in>set (ancestors root (fst t)). \<not> should_exclude d (exclusions cfg)"
proof (induction cfg root names n and cfg root names children
       rule: trail_dir_trail_children.induct)
  case (1 cfg root names children)
  then show ?case by simp
next
  case (4 cfg root names child rest)
  show ?case
  proof (cases "is_dir (snd child) \<and> keep_dir cfg (descend root names) (fst child)")
    case True
    then have eq: "trail_children cfg root names (child # rest)
               = trail_dir cfg root (names @ [fst child]) (snd child)
                 @ trail_children cfg root names rest"
      by (simp only: trail_children.simps if_True simp_thms)
    from True have "\<not> should_exclude (descend root (names @ [fst child])) (exclusions cfg)"
      by (simp add: keep_dir_def descend_snoc)
    with 4(3) have "\<forall>d\<in>set (ancestors root (names @ [fst child])).
                      \<not> should_exclude d (exclusions cfg)"
      by (simp add: ancestors_snoc)
    from 4(1) [OF True this] 4(2) [OF 4(3)] show ?thesis
      unfolding eq by auto
  next
    case False
    then have "trail_children cfg root names (child # rest) = trail_children cfg root names rest"
      by (simp only: trail_children.simps if_False append_Nil simp_thms)
    with 4(2) [OF 4(3)] show ?thesis by simp
  qed
qed simp_all

lemma file_loop_child:
  "e \<in> set (file_loop cfg dirpath fs) \<Longrightarrow>
   \<exists>f\<in>set fs. fst e = path_join dirpath (fst f) \<and> getsize (snd f) = Some (snd e)
      \<and> counted cfg dirpath f"
  by (induction fs) (auto split: if_splits option.splits)

lemma file_entries_child:
  assumes "e \<in> set (file_entries cfg dirpath children)"
  shows "\<exists>child\<in>set children.
           \<not> is_dir (snd child) \<and> \<not> islink (snd child)
           \<and> fst e = path_join dirpath (fst child)
           \<and> getsize (snd child) = Some (snd e)
           \<and> \<not> should_exclude (fst e) (exclusions cfg)"
proof -
  from assms have "e \<in> set (file_loop cfg dirpath (filenames children))"
    by (auto simp: file_entries_def split: if_splits)
  then obtain f where f: "f \<in> set (filenames children)"
    and p: "fst e = path_join dirpath (fst f)" and g: "getsize (snd f) = Some (snd e)"
    and c: "counted cfg dirpath f"
    by (blast dest: file_loop_child)
  from f have "f \<in> set children" "\<not> is_dir (snd f)"
    by (auto simp: filenames_def)
  moreover from c p have "\<not> islink (snd f)" "\<not> should_exclude (fst e) (exclusions cfg)"
    by (auto simp: counted_def split: prod.splits)
  ultimately show ?thesis using p g by blast
qed

lemma walk_trail:
  "walk_dir cfg root root_node
   = concat (map (\<lambda>t. directory_entry cfg (descend root (fst t), snd t)
                       @ file_entries cfg (descend root (fst t)) (snd t))
               (trail_dir cfg root [] root_node))"
proof -
  have tv: "visited_dir cfg root root_node
            = map (\<lambda>t. (descend root (fst t), snd t)) (trail_dir cfg root [] root_node)"
    using trail_visited(1) [of root cfg "[]" root_node] by (simp add: descend_def)
  show ?thesis
    unfolding walk_visited(1) tv by (simp add: comp_def)
qed

lemma directory_entry_path: "e \<in> set (directory_entry cfg v) \<Longrightarrow> fst e = fst v"
  by (auto simp: directory_entry_def split: if_splits)

text \<open>
  Claim C6, as amended. The entries the walk appends are those of the directories on the
  recorded trails, in order, and the trails are the visited directories; every visited
  directory is reached from the root through a list of names, and none of the
  directories passed below the root, the visited one included, matches an exclusion
  pattern; every entry of the result is such a visited directory itself, or a file that
  is an entry of one, recorded with its own size, whose own path is not excluded. So no
  entry is equal to or lies under an excluded directory below the scan root.
\<close>

theorem scan_avoids_excluded_below_root:
  "walk_dir cfg root root_node
     = concat (map (\<lambda>t. directory_entry cfg (descend root (fst t), snd t)
                         @ file_entries cfg (descend root (fst t)) (snd t))
                 (trail_dir cfg root [] root_node))
   \<and> map (\<lambda>t. (descend root (fst t), snd t)) (trail_dir cfg root [] root_node)
     = visited_dir cfg root root_node
   \<and> (\<forall>t\<in>set (trail_dir cfg root [] root_node).
        \<forall>d\<in>set (ancestors root (fst t)). \<not> should_exclude d (exclusions cfg))
   \<and> (\<forall>e\<in>set (analyze_disk_usage cfg root root_node).
        \<exists>t\<in>set (trail_dir cfg root [] root_node).
          fst e = descend root (fst t)
          \<or> (\<exists>child\<in>set (snd t).
                \<not> is_dir (snd child) \<and> \<not> islink (snd child)
                \<and> fst e = path_join (descend root (fst t)) (fst child)
                \<and> getsize (snd child) = Some (snd e)
                \<and> \<not> should_exclude (fst e) (exclusions cfg)))"
proof (intro conjI ballI)
  show wt: "walk_dir cfg root root_node
     = concat (map (\<lambda>t. directory_entry cfg (descend root (fst t), snd t)
                         @ file_entries cfg (descend root (fst t)) (snd t))
                 (trail_dir cfg root [] root_node))"
    by (rule walk_trail)
  show "map (\<lambda>t. (descend root (fst t), snd t)) (trail_dir cfg root [] root_node)
     = visited_dir cfg root root_node"
    using trail_visited(1) [of root cfg "[]" root_node] by (simp add: descend_def)
  show "\<not> should_exclude d (exclusions cfg)"
    if "t \<in> set (trail_dir cfg root [] root_node)" "d \<in> set (ancestors root (fst t))" for t d
    using trail_not_excluded(1) [of root "[]" cfg root_node] that by simp
  fix e
  assume "e \<in> set (analyze_disk_usage cfg root root_node)"
  then have "e \<in> set (walk_dir cfg root root_node)"
    by (simp add: analyze_disk_usage_def sorted_reverse_def)
  then obtain t where t: "t \<in> set (trail_dir cfg root [] root_node)"
    and e: "e \<in> set (directory_entry cfg (descend root (fst t), snd t))
            \<or> e \<in> set (file_entries cfg (descend root (fst t)) (snd t))"
    unfolding wt by auto
  from e have "fst e = descend root (fst t)
          \<or> (\<exists>child\<in>set (snd t).
                \<not> is_dir (snd child) \<and> \<not> islink (snd child)
                \<and> fst e = path_join (descend root (fst t)) (fst child)
                \<and> getsize (snd child) = Some (snd e)
                \<and> \<not> should_exclude (fst e) (exclusions cfg))"
  proof
    assume "e \<in> set (directory_entry cfg (descend root (fst t), snd t))"
    then have "fst e = descend root (fst t)" by (auto dest: directory_entry_path)
    then show ?thesis ..
  next
    assume "e \<in> set (file_entries cfg (descend root (fst t)) (snd t))"
    from file_entries_child [OF this] show ?thesis ..
  qed
  with t show "\<exists>t\<in>set (trail_dir cfg root [] root_node).
          fst e = descend root (fst t)
          \<or> (\<exists>child\<in>set (snd t).
                \<not> is_dir (snd child) \<and> \<not> islink (snd child)
                \<and> fst e = path_join (descend root (fst t)) (fst child)
                \<and> getsize (snd child) = Some (snd e)
                \<and> \<not> should_exclude (fst e) (exclusions cfg))"
    by blast
qed

text \<open>
  The scan root itself is never tested: with the pattern \<open>/proc\<close> a scan of \<open>/proc\<close>
  returns an entry for \<open>/proc\<close>.
\<close>

theorem excluded_root_is_scanned:
  "should_exclude ''/proc'' [''/proc'']
   \<and> analyze_disk_usage
       \<lparr>exclusions = [''/proc''], min_bytes = 100, scan_files = False, scan_dirs = True,
        ignore_dot = False\<rparr>
       ''/proc'' (Dir [(''big'', File 200)])
     = [(''/proc'', 200)]"
  by code_simp

text \<open>
  With the pattern \<open>/r/drop\<close> the walk of \<open>/r\<close> visits \<open>/r/keep\<close> and not
  \<open>/r/drop\<close>: the 900 bytes under \<open>/r/drop\<close> give no entry.
\<close>

theorem scan_avoids_excluded_below_root_witness:
  "([''keep''], [(''big'', File 200)])
     \<in> set (trail_dir
         \<lparr>exclusions = [''/r/drop''], min_bytes = 100, scan_files = True, scan_dirs = True,
          ignore_dot = False\<rparr>
         ''/r'' [] (Dir [(''drop'', Dir [(''huge'', File 900)]), (''keep'', Dir [(''big'', File 200)])]))
   \<and> ''/r/keep'' \<in> set (ancestors ''/r'' [''keep''])
   \<and> \<not> should_exclude ''/r/keep'' [''/r/drop'']
   \<and> should_exclude ''/r/drop'' [''/r/drop'']
   \<and> analyze_disk_usage
         \<lparr>exclusions = [''/r/drop''], min_bytes = 100, scan_files = True, scan_dirs = True,
          ignore_dot = False\<rparr>
         ''/r'' (Dir [(''drop'', Dir [(''huge'', File 900)]), (''keep'', Dir [(''big'', File 200)])])
       = [(''/r/keep'', 200), (''/r/keep/big'', 200)]"
proof -
  let ?cfg = "\<lparr>exclusions = [''/r/drop''], min_bytes = 100, scan_files = True, scan_dirs = True,
          ignore_dot = False\<rparr>"
  let ?tree = "Dir [(''drop'', Dir [(''huge'', File 900)]), (''keep'', Dir [(''big'', File 200)])]"
  have a: "([''keep''], [(''big'', File 200)]) \<in> set (trail_dir ?cfg ''/r'' [] ?tree)"
    by code_simp
  have b: "''/r/keep'' \<in> set (ancestors ''/r'' (fst ([''keep''], [(''big'', File 200)])))"
    by code_simp
  from scan_avoids_excluded_below_root [of ?cfg "''/r''" ?tree] a b
  have "\<not> should_exclude ''/r/keep'' (exclusions ?cfg)" by blast
  then have c: "\<not> should_exclude ''/r/keep'' [''/r/drop'']" by simp
  have x: "should_exclude ''/r/drop'' [''/r/drop'']" by code_simp
  have d: "analyze_disk_usage ?cfg ''/r'' ?tree = [(''/r/keep'', 200), (''/r/keep/big'', 200)]"
    by code_simp
  from b have b': "''/r/keep'' \<in> set (ancestors ''/r'' [''keep''])" by simp
  from a b' c x d show ?thesis by (intro conjI)
qed

section \<open>Properties of the removal executor\<close>








text \<open>
  Claim C4 at a path that exists and is neither a regular file nor a directory (a named
  pipe, a socket, a device): the file system is left as it was and the path is reported
  as removed with size 0.
\<close>

theorem special_file_reported_without_removal:
  assumes "os_exists os w path" and "\<not> os_isfile os w path" and "\<not> os_isdir os w path"
  shows "safe_remove_items os w [(path, expected_size)]
         = \<lparr>world = w, removed = [(path, 0)], console = [Removed path 0]\<rparr>"
  using assms by (simp add: safe_remove_items_def remove_item_def try_remove_def)

theorem special_file_reported_without_removal_witness:
  "os_exists disk_os [(''/t/pipe'', Pipe)] ''/t/pipe''
   \<and> \<not> os_isfile disk_os [(''/t/pipe'', Pipe)] ''/t/pipe''
   \<and> \<not> os_isdir disk_os [(''/t/pipe'', Pipe)] ''/t/pipe''
   \<and> safe_remove_items disk_os [(''/t/pipe'', Pipe)] [(''/t/pipe'', 0)]
       = \<lparr>world = [(''/t/pipe'', Pipe)], removed = [(''/t/pipe'', 0)],
          console = [Removed ''/t/pipe'' 0]\<rparr>"
proof -
  have a: "os_exists disk_os [(''/t/pipe'', Pipe)] ''/t/pipe''" by code_simp
  have b: "\<not> os_isfile disk_os [(''/t/pipe'', Pipe)] ''/t/pipe''" by code_simp
  have c: "\<not> os_isdir disk_os [(''/t/pipe'', Pipe)] ''/t/pipe''" by code_simp
  from a b c special_file_reported_without_removal [OF a b c, of 0] show ?thesis by (intro conjI)
qed

end
